theory Spec2Isabelle
  imports Main "HOL-Library.Sublist"
begin

section \<open>Strings and characters\<close>

text \<open>
  File names are Python \<open>str\<close> values. They are modelled as \<open>string\<close>, each
  \<open>char\<close> standing for the code point of the same number, so the model covers the
  names whose code points are below 256. The character classes are those of Python's
  \<open>re\<close> module on \<open>str\<close> patterns, restricted to that range.
\<close>

definition code :: "char \<Rightarrow> nat" where
  "code c = of_char c"

text \<open>\<open>\w\<close>: alphanumeric characters (\<open>str.isalnum\<close>) and the underscore.\<close>

definition is_word :: "char \<Rightarrow> bool" where
  "is_word c =
     (let n = code c in
        (48 \<le> n \<and> n \<le> 57) \<or> (65 \<le> n \<and> n \<le> 90) \<or> (97 \<le> n \<and> n \<le> 122) \<or> n = 95
        \<or> n = 170 \<or> n = 178 \<or> n = 179 \<or> n = 181 \<or> n = 185 \<or> n = 186
        \<or> (188 \<le> n \<and> n \<le> 190) \<or> (192 \<le> n \<and> n \<le> 214)
        \<or> (216 \<le> n \<and> n \<le> 246) \<or> (248 \<le> n \<and> n \<le> 255))"

text \<open>\<open>\s\<close>: the characters for which \<open>str.isspace\<close> holds.\<close>

definition is_whitespace :: "char \<Rightarrow> bool" where
  "is_whitespace c =
     (let n = code c in (9 \<le> n \<and> n \<le> 13) \<or> (28 \<le> n \<and> n \<le> 32) \<or> n = 133 \<or> n = 160)"

text \<open>The punctuation both character classes of \<open>clean_filename\<close> list: \<open>-()[]{}\<close>.\<close>

definition is_bracket :: "char \<Rightarrow> bool" where
  "is_bracket c = (c \<in> set ''-()[]{}'')"

text \<open>Control characters: the general category Cc.\<close>

definition is_control :: "char \<Rightarrow> bool" where
  "is_control c = (let n = code c in n < 32 \<or> (127 \<le> n \<and> n \<le> 159))"

definition is_path_separator :: "char \<Rightarrow> bool" where
  "is_path_separator c = (c = CHR ''/'' \<or> c = CHR 0x5C)"

text \<open>\<open>str.lower\<close>, character by character.\<close>

definition lower_char :: "char \<Rightarrow> char" where
  "lower_char c =
     (let n = code c in
        if (65 \<le> n \<and> n \<le> 90) \<or> (192 \<le> n \<and> n \<le> 222 \<and> n \<noteq> 215)
        then char_of (n + 32) else c)"

definition lower :: "string \<Rightarrow> string" where
  "lower s = map lower_char s"

definition endswith :: "string \<Rightarrow> string \<Rightarrow> bool" where
  "endswith s e = (length e \<le> length s \<and> drop (length s - length e) s = e)"

text \<open>\<open>s.replace(" ", r)\<close>.\<close>

definition replace_space :: "string \<Rightarrow> string \<Rightarrow> string" where
  "replace_space r s = concat (map (\<lambda>c. if c = CHR '' '' then r else [c]) s)"

text \<open>
  \<open>re.sub('[^...]+', r, s)\<close>: every maximal run of characters outside the class
  \<open>ok\<close> is replaced by one copy of \<open>r\<close>. The flag says whether the character
  before belongs to a run that has been replaced already.
\<close>

fun sub_runs :: "(char \<Rightarrow> bool) \<Rightarrow> string \<Rightarrow> bool \<Rightarrow> string \<Rightarrow> string" where
  "sub_runs ok r in_run [] = []"
| "sub_runs ok r in_run (c # cs) =
     (if ok c then c # sub_runs ok r False cs
      else (if in_run then [] else r) @ sub_runs ok r True cs)"

definition re_sub_not_in :: "(char \<Rightarrow> bool) \<Rightarrow> string \<Rightarrow> string \<Rightarrow> string" where
  "re_sub_not_in ok r s = sub_runs ok r False s"

text \<open>
  \<open>re.sub(re.escape(r) + '{2,}', r, s)\<close> for a non-empty \<open>r\<close>: the quantifier
  binds the last character of \<open>r\<close> only, so a match is \<open>butlast r\<close> followed by two
  or more copies of \<open>last r\<close>, as many as there are. Matches are searched from the
  left and do not overlap.
\<close>

function collapse_runs :: "string \<Rightarrow> string \<Rightarrow> string" where
  "collapse_runs r s =
     (if s = [] then []
      else if length (butlast r) \<le> length s \<and> take (length (butlast r)) s = butlast r
              \<and> 2 \<le> length (takeWhile (\<lambda>x. x = last r) (drop (length (butlast r)) s))
      then r @ collapse_runs r (dropWhile (\<lambda>x. x = last r) (drop (length (butlast r)) s))
      else hd s # collapse_runs r (tl s))"
  by pat_completeness auto
termination
proof (relation "measure (\<lambda>(r, s). length s)", goal_cases)
  case 1
  show ?case by simp
next
  case (2 r s)
  let ?t = "drop (length (butlast r)) s"
  have "length (takeWhile (\<lambda>x. x = last r) ?t) + length (dropWhile (\<lambda>x. x = last r) ?t)
          = length ?t"
    by (metis length_append takeWhile_dropWhile_id)
  moreover have "length ?t \<le> length s"
    by simp
  ultimately show ?case using 2 by (simp del: length_drop)
next
  case (3 r s)
  then show ?case by (cases s) simp_all
qed

declare collapse_runs.simps [simp del]

text \<open>\<open>s.strip(chars)\<close>.\<close>

definition strip :: "string \<Rightarrow> string \<Rightarrow> string" where
  "strip chars s =
     rev (dropWhile (\<lambda>c. c \<in> set chars) (rev (dropWhile (\<lambda>c. c \<in> set chars) s)))"

section \<open>The filename sanitizer\<close>

definition SUPPORTED_EXTENSIONS :: "string list" where
  "SUPPORTED_EXTENSIONS = [''.rar'', ''.zip'', ''.7z'']"

text \<open>
  The first loop of \<open>clean_filename\<close>: the first extension that the lower-cased name
  ends with is cut off, and the loop stops there.
\<close>

fun remove_extension :: "string list \<Rightarrow> string \<Rightarrow> string" where
  "remove_extension [] filename = filename"
| "remove_extension (ext # exts) filename =
     (if endswith (lower filename) ext
      then take (length filename - length ext) filename
      else remove_extension exts filename)"

text \<open>The two character classes, as sets of allowed characters.\<close>

definition allowed_replacing :: "char \<Rightarrow> bool" where
  "allowed_replacing c = (is_word c \<or> is_bracket c \<or> is_whitespace c)"

definition allowed_keeping :: "char \<Rightarrow> bool" where
  "allowed_keeping c = (is_word c \<or> c = CHR '' '' \<or> is_bracket c)"

text \<open>
  \<open>clean_filename(filename, replace_spaces, space_replacement)\<close>. The replacement
  strings that \<open>main\<close> passes hold no backslash, so \<open>re.sub\<close> inserts them as they are.
\<close>

definition clean_filename :: "string \<Rightarrow> bool \<Rightarrow> string \<Rightarrow> string" where
  "clean_filename filename replace_spaces space_replacement =
     (let f1 = remove_extension SUPPORTED_EXTENSIONS filename;
          f2 = (if replace_spaces then replace_space space_replacement f1 else f1);
          f3 = (if replace_spaces
                then replace_space space_replacement
                       (re_sub_not_in allowed_replacing space_replacement f2)
                else re_sub_not_in allowed_keeping [] f2);
          f4 = (if space_replacement \<noteq> [] then collapse_runs space_replacement f3 else f3)
      in strip ''.-_ '' f4)"

text \<open>The four formatting choices of \<open>main\<close> and the two arguments each one sets.\<close>

datatype policy = KeepSpaces | ReplaceWithUnderscore | ReplaceWithDash | RemoveSpaces

fun replace_spaces_of :: "policy \<Rightarrow> bool" where
  "replace_spaces_of KeepSpaces = False"
| "replace_spaces_of ReplaceWithUnderscore = True"
| "replace_spaces_of ReplaceWithDash = True"
| "replace_spaces_of RemoveSpaces = True"

fun space_replacement_of :: "policy \<Rightarrow> string" where
  "space_replacement_of KeepSpaces = '' ''"
| "space_replacement_of ReplaceWithUnderscore = ''_''"
| "space_replacement_of ReplaceWithDash = ''-''"
| "space_replacement_of RemoveSpaces = ''''"

definition sanitize :: "string \<Rightarrow> policy \<Rightarrow> string" where
  "sanitize filename p = clean_filename filename (replace_spaces_of p) (space_replacement_of p)"

section \<open>Paths and directory trees\<close>

type_synonym path = string

text \<open>Paths follow the POSIX conventions: \<open>os.sep\<close> is the slash.\<close>

definition sep :: char where
  "sep = CHR ''/''"

text \<open>\<open>os.path.join(a, b)\<close>.\<close>

definition join :: "path \<Rightarrow> path \<Rightarrow> path" where
  "join a b =
     (if b \<noteq> [] \<and> hd b = sep then b
      else if a = [] \<or> last a = sep then a @ b
      else a @ sep # b)"

text \<open>
  What a directory holds: entries that are directories, with their own entries, and
  entries that are not. The order of a list is the order in which the directory is listed.
\<close>

datatype node = File string | Dir string "node list"

fun file_names :: "node list \<Rightarrow> string list" where
  "file_names [] = []"
| "file_names (File n # es) = n # file_names es"
| "file_names (Dir n sub # es) = file_names es"

fun dir_names :: "node list \<Rightarrow> string list" where
  "dir_names [] = []"
| "dir_names (File n # es) = dir_names es"
| "dir_names (Dir n sub # es) = n # dir_names es"

text \<open>
  \<open>os.walk(root)\<close>, top-down: the triple of the directory itself, then the walk of each
  of its subdirectories in listing order.
\<close>

fun walk :: "path \<Rightarrow> node list \<Rightarrow> (path \<times> string list \<times> string list) list"
  and walk_subdirs :: "path \<Rightarrow> node list \<Rightarrow> (path \<times> string list \<times> string list) list" where
  "walk root es = (root, dir_names es, file_names es) # walk_subdirs root es"
| "walk_subdirs root [] = []"
| "walk_subdirs root (File n # es) = walk_subdirs root es"
| "walk_subdirs root (Dir n sub # es) = walk (join root n) sub @ walk_subdirs root es"

section \<open>The innermost-file locator\<close>

text \<open>The depth the locator computes: \<open>file_path[len(directory):].count(os.sep)\<close>.\<close>

definition depth_of :: "path \<Rightarrow> path \<Rightarrow> int" where
  "depth_of directory file_path = int (count_list (drop (length directory) file_path) sep)"

text \<open>The inner loop over the files of one directory; the state is \<open>(deepest_file, max_depth)\<close>.\<close>

fun scan_files :: "path \<Rightarrow> path \<Rightarrow> string list \<Rightarrow> path option \<times> int \<Rightarrow> path option \<times> int" where
  "scan_files directory root [] st = st"
| "scan_files directory root (file # files) (deepest_file, max_depth) =
     (let file_path = join root file;
          depth = depth_of directory file_path
      in scan_files directory root files
           (if depth > max_depth then (Some file_path, depth) else (deepest_file, max_depth)))"

text \<open>The outer loop over the triples of the walk.\<close>

fun scan_walk :: "path \<Rightarrow> (path \<times> string list \<times> string list) list \<Rightarrow> path option \<times> int
                    \<Rightarrow> path option \<times> int" where
  "scan_walk directory [] st = st"
| "scan_walk directory ((root, dirs, files) # rest) st =
     scan_walk directory rest (scan_files directory root files st)"

text \<open>\<open>find_innermost_file(directory)\<close>, on the tree that the directory holds.\<close>

definition find_innermost_file :: "path \<Rightarrow> node list \<Rightarrow> path option" where
  "find_innermost_file directory es = fst (scan_walk directory (walk directory es) (None, - 1))"

section \<open>The environment\<close>

text \<open>
  The exceptions the program can meet. All of them are subclasses of \<open>Exception\<close>, so
  every \<open>except Exception\<close> handler catches each of them.
\<close>

datatype exn =
    TimeoutExpired | FileNotFoundError | CalledProcessError | PermissionError | OSError
  | RuntimeError | TypeError | UnboundLocalError | UnicodeEncodeError | PatoolError

text \<open>
  The messages that \<open>extract_archive\<close> and the two loops of \<open>main\<close> print, one
  constructor for each \<open>print\<close> statement, with the values that the statement puts into
  the text: the two of \<open>extract_archive\<close>, the first message of the first loop, the
  three that both loops have, the one between the loops, and the ten of the second loop
  only.
\<close>

datatype message =
    Msg_tool_failed string
  | Msg_error_with string exn
  | Msg_processing string
  | Msg_no_innermost path
  | Msg_extract_failed string
  | Msg_error_processing string exn
  | Msg_progress_disabled
  | Msg_processing_count string nat nat
  | Msg_moving path path
  | Msg_moved string
  | Msg_move_failed path exn
  | Msg_copied string
  | Msg_copy_failed path exn
  | Msg_cleaned path
  | Msg_cleanup_failed path exn
  | Msg_marker_created string
  | Msg_marker_failed exn

text \<open>
  What each call to the operating system or to a library does, given its arguments:
  \<open>None\<close> (or \<open>Inr\<close>) when the call returns, \<open>Some e\<close> (or \<open>Inl e\<close>) when it
  raises \<open>e\<close>. \<open>subprocess_run\<close> gives the return code of the process.
  \<open>os_walk_tree\<close> is the tree that \<open>os.walk\<close> finds under a directory.
  \<open>print_call\<close> is \<open>print\<close>, which raises \<open>UnicodeEncodeError\<close> when the standard
  output cannot encode the text. \<open>alive_bar_enter\<close> is the entry into the progress bar's
  \<open>with\<close> block and \<open>progress_bar i\<close> the call \<open>bar()\<close> after the item of index \<open>i\<close>.
  A call with the same arguments has the same outcome each time it is made.
\<close>

record world =
  win32 :: bool
  run_probe :: "string \<Rightarrow> exn option"
  patoolib_importable :: bool
  subprocess_run :: "string list \<Rightarrow> exn + int"
  patoolib_extract :: "path \<Rightarrow> path \<Rightarrow> exn option"
  os_makedirs :: "path \<Rightarrow> exn option"
  os_walk_tree :: "path \<Rightarrow> node list"
  shutil_move :: "path \<Rightarrow> path \<Rightarrow> exn option"
  shutil_copy2 :: "path \<Rightarrow> path \<Rightarrow> exn option"
  os_remove :: "path \<Rightarrow> exn option"
  shutil_rmtree :: "path \<Rightarrow> exn option"
  open_write :: "path \<Rightarrow> string \<Rightarrow> exn option"
  print_call :: "message \<Rightarrow> exn option"
  alive_bar_enter :: "exn option"
  progress_bar :: "nat \<Rightarrow> exn option"

text \<open>
  The calls to the file system, to the extraction backends and to the progress bar, in the
  order in which the pipeline makes them; a call is recorded whether it returns or raises.
  The prints and the resolver's probes are not recorded. An element \<open>None\<close> of a command
  line is Python's \<open>None\<close>.
\<close>

datatype event =
    Run "string option list"
  | Patool path path
  | Makedirs path
  | Walk path
  | Move path path
  | Copy2 path path
  | Remove path
  | Rmtree path
  | Write path string
  | Bar

text \<open>Calls made before the calls of what follows.\<close>

definition emit :: "event list \<Rightarrow> 'a \<times> event list \<Rightarrow> 'a \<times> event list" where
  "emit es r = (fst r, es @ snd r)"

section \<open>The extractor resolver\<close>

type_synonym extractor = "string \<times> string option"

text \<open>
  \<open>is_tool_available\<close>: the probe's three listed exceptions mean that the tool is
  absent, any other exception leaves the function.
\<close>

definition is_tool_available :: "world \<Rightarrow> string \<Rightarrow> exn + bool" where
  "is_tool_available w tool_name =
     (case run_probe w tool_name of
        None \<Rightarrow> Inr True
      | Some e \<Rightarrow>
          if e = TimeoutExpired \<or> e = FileNotFoundError \<or> e = CalledProcessError
          then Inr False else Inl e)"

text \<open>The candidates of each platform, in the order the source tests them.\<close>

definition platform_tools :: "world \<Rightarrow> extractor list" where
  "platform_tools w =
     (if win32 w then [(''unrar'', Some ''x''), (''7z'', Some ''x'')]
      else [(''unrar'', Some ''x''), (''7z'', Some ''x''), (''unzip'', Some [])])"

fun available_tools :: "world \<Rightarrow> extractor list \<Rightarrow> exn + extractor list" where
  "available_tools w [] = Inr []"
| "available_tools w (x # xs) =
     (case is_tool_available w (fst x) of
        Inl e \<Rightarrow> Inl e
      | Inr ok \<Rightarrow>
          (case available_tools w xs of
             Inl e \<Rightarrow> Inl e
           | Inr ys \<Rightarrow> Inr (if ok then x # ys else ys)))"

definition get_archive_extractor :: "world \<Rightarrow> exn + extractor list" where
  "get_archive_extractor w =
     (case available_tools w (platform_tools w) of
        Inl e \<Rightarrow> Inl e
      | Inr extractors \<Rightarrow>
          Inr (extractors @ (if patoolib_importable w then [(''patoolib'', None)] else [])))"

section \<open>The archive extractor\<close>

text \<open>
  The assignment to \<open>cmd\<close> in the loop body. A name that none of the three branches
  knows leaves the variable as it was: unbound in the first round, the command of the
  round before afterwards.
\<close>

definition assign_cmd ::
  "string \<Rightarrow> string option \<Rightarrow> path \<Rightarrow> path \<Rightarrow> string option list option
     \<Rightarrow> string option list option" where
  "assign_cmd extractor_name extractor_cmd archive_path extract_to cmd =
     (if extractor_name = ''unrar''
      then Some [Some extractor_name, extractor_cmd, Some ''-o-'', Some archive_path, Some extract_to]
      else if extractor_name = ''7z''
      then Some [Some extractor_name, extractor_cmd, Some (''-o'' @ extract_to), Some archive_path]
      else if extractor_name = ''unzip''
      then Some [Some extractor_name, Some archive_path, Some ''-d'', Some extract_to]
      else cmd)"

text \<open>\<open>subprocess.run(cmd, ..., timeout=60)\<close>: an argument \<open>None\<close> is a \<open>TypeError\<close>.\<close>

definition run_cmd :: "world \<Rightarrow> string option list \<Rightarrow> exn + int" where
  "run_cmd w cmd = (if None \<in> set cmd then Inl TypeError else subprocess_run w (map the cmd))"

text \<open>
  The handler of the loop body, \<open>except Exception as e\<close>: it prints the exception and
  goes on with the next extractor, whose outcome is \<open>next_round\<close>. The print is not
  guarded: an exception of it leaves \<open>extract_archive\<close>.
\<close>

definition backend_handler ::
  "world \<Rightarrow> string \<Rightarrow> exn \<Rightarrow> (exn + bool) \<times> event list \<Rightarrow> (exn + bool) \<times> event list" where
  "backend_handler w extractor_name e next_round =
     (case print_call w (Msg_error_with extractor_name e) of
        Some print_error \<Rightarrow> (Inl print_error, [])
      | None \<Rightarrow> next_round)"

text \<open>
  The loop of \<open>extract_archive\<close> over the extractors. The result is \<open>Inr\<close> of the value
  returned (\<open>True\<close> from inside the loop, \<open>False\<close> after it) or \<open>Inl\<close> of the exception
  that leaves the loop, and the calls made. After a return code other than zero the
  message is printed inside the \<open>try\<close> block, so an exception of that print reaches the
  handler like one of the backend.
\<close>

fun try_extractors ::
  "world \<Rightarrow> path \<Rightarrow> path \<Rightarrow> string option list option \<Rightarrow> extractor list
     \<Rightarrow> (exn + bool) \<times> event list" where
  "try_extractors w archive_path extract_to cmd [] = (Inr False, [])"
| "try_extractors w archive_path extract_to cmd ((extractor_name, extractor_cmd) # rest) =
     (if extractor_name = ''patoolib'' then
        emit [Patool archive_path extract_to]
          (case patoolib_extract w archive_path extract_to of
             None \<Rightarrow> (Inr True, [])
           | Some e \<Rightarrow>
               backend_handler w extractor_name e
                 (try_extractors w archive_path extract_to cmd rest))
      else
        (case assign_cmd extractor_name extractor_cmd archive_path extract_to cmd of
           None \<Rightarrow>
             backend_handler w extractor_name UnboundLocalError
               (try_extractors w archive_path extract_to None rest)
         | Some c \<Rightarrow>
             emit [Run c]
               (case run_cmd w c of
                  Inl e \<Rightarrow>
                    backend_handler w extractor_name e
                      (try_extractors w archive_path extract_to (Some c) rest)
                | Inr returncode \<Rightarrow>
                    if returncode = 0 then (Inr True, [])
                    else
                      (case print_call w (Msg_tool_failed extractor_name) of
                         None \<Rightarrow> try_extractors w archive_path extract_to (Some c) rest
                       | Some e \<Rightarrow>
                           backend_handler w extractor_name e
                             (try_extractors w archive_path extract_to (Some c) rest)))))"

text \<open>
  \<open>extract_archive\<close>: \<open>Inl\<close> is an exception that leaves the function. The body
  does not use its third parameter, \<open>archive_name\<close>, which the model leaves out, and it
  resolves the extractors anew at every call. The environment variable that the
  \<open>patoolib\<close> branch sets on \<open>win32\<close> has no part in what the function returns.
\<close>

definition extract_archive :: "world \<Rightarrow> path \<Rightarrow> path \<Rightarrow> (exn + bool) \<times> event list" where
  "extract_archive w archive_path extract_to =
     (case get_archive_extractor w of
        Inl e \<Rightarrow> (Inl e, [])
      | Inr extractors \<Rightarrow>
          if extractors = [] then (Inl RuntimeError, [])
          else try_extractors w archive_path extract_to None extractors)"

section \<open>The batch pipeline\<close>

text \<open>What \<open>main\<close> has asked the user for before the batch starts.\<close>

record settings =
  replace_spaces :: bool
  space_replacement :: string
  xbla_dir :: path
  xbla_unpacked_dir :: path

text \<open>
  The archives of the input directory: for each supported extension in turn, the entries
  of the listing whose lower-cased name ends with it.
\<close>

definition archive_files :: "string list \<Rightarrow> string list" where
  "archive_files listing =
     concat (map (\<lambda>ext. filter (\<lambda>f. endswith (lower f) ext) listing) SUPPORTED_EXTENSIONS)"

text \<open>
  How the processing of one archive ends: at the end of the \<open>try\<close> block, at one of its
  two warnings, at the \<open>continue\<close> of the second loop after a failed copy, or in the
  handler of the block, which reports the exception.
\<close>

datatype outcome =
    Completed
  | No_innermost_file
  | Extract_failed
  | Copy_failed
  | Error_processing exn

definition game_name_of :: "settings \<Rightarrow> string \<Rightarrow> string" where
  "game_name_of cfg archive = clean_filename archive (replace_spaces cfg) (space_replacement cfg)"

definition game_dir_of :: "settings \<Rightarrow> string \<Rightarrow> path" where
  "game_dir_of cfg archive = join (xbla_unpacked_dir cfg) (game_name_of cfg archive @ ''_temp'')"

definition final_file_path_of :: "settings \<Rightarrow> string \<Rightarrow> path" where
  "final_file_path_of cfg archive = join (xbla_unpacked_dir cfg) (game_name_of cfg archive)"

text \<open>A message printed inside a \<open>try\<close> block as the last statement of a branch.\<close>

definition report :: "world \<Rightarrow> message \<Rightarrow> outcome \<Rightarrow> (exn + outcome) \<times> event list" where
  "report w m out = (case print_call w m of Some e \<Rightarrow> (Inl e, []) | None \<Rightarrow> (Inr out, []))"

text \<open>
  The \<open>try\<close> block of the first loop (the one under the progress bar). \<open>Inl e\<close> is an
  exception that reaches the block's handler.
\<close>

definition try_block_primary :: "world \<Rightarrow> settings \<Rightarrow> string \<Rightarrow> (exn + outcome) \<times> event list" where
  "try_block_primary w cfg archive =
     (let archive_path = join (xbla_dir cfg) archive;
          game_name = game_name_of cfg archive;
          game_dir = game_dir_of cfg archive;
          final_file_path = final_file_path_of cfg archive
      in case print_call w (Msg_processing archive) of
           Some e \<Rightarrow> (Inl e, [])
         | None \<Rightarrow>
      emit [Makedirs game_dir]
        (case os_makedirs w game_dir of
           Some e \<Rightarrow> (Inl e, [])
         | None \<Rightarrow>
      emit (snd (extract_archive w archive_path game_dir))
        (case fst (extract_archive w archive_path game_dir) of
           Inl e \<Rightarrow> (Inl e, [])
         | Inr extracted \<Rightarrow>
             if \<not> extracted then report w (Msg_extract_failed archive) Extract_failed
             else
      emit [Walk game_dir]
        (case find_innermost_file game_dir (os_walk_tree w game_dir) of
           None \<Rightarrow> report w (Msg_no_innermost game_dir) No_innermost_file
         | Some innermost_file \<Rightarrow>
             if innermost_file = [] then report w (Msg_no_innermost game_dir) No_innermost_file
             else
      emit [Move innermost_file final_file_path]
        (case shutil_move w innermost_file final_file_path of
           Some e \<Rightarrow> (Inl e, [])
         | None \<Rightarrow>
      emit [Rmtree game_dir]
        (case shutil_rmtree w game_dir of
           Some e \<Rightarrow> (Inl e, [])
         | None \<Rightarrow>
      emit [Write (final_file_path @ ''.xbox360'') game_name]
        (case open_write w (final_file_path @ ''.xbox360'') game_name of
           Some e \<Rightarrow> (Inl e, [])
         | None \<Rightarrow> (Inr Completed, []))))))))"

text \<open>
  The block with its handler, \<open>except Exception as e\<close>, which prints the exception. The
  print is not guarded: \<open>Inl\<close> is an exception of it, which leaves the loop.
\<close>

definition process_primary :: "world \<Rightarrow> settings \<Rightarrow> string \<Rightarrow> (exn + outcome) \<times> event list" where
  "process_primary w cfg archive =
     (case fst (try_block_primary w cfg archive) of
        Inr out \<Rightarrow> (Inr out, snd (try_block_primary w cfg archive))
      | Inl e \<Rightarrow>
          (case print_call w (Msg_error_processing archive e) of
             None \<Rightarrow> (Inr (Error_processing e), snd (try_block_primary w cfg archive))
           | Some print_error \<Rightarrow> (Inl print_error, snd (try_block_primary w cfg archive))))"

text \<open>
  The first loop. After each item comes the call \<open>bar()\<close>, outside the \<open>try\<close> block.
  The result is the exception that leaves the loop if there is one, the outcomes of the
  items processed to their end, and the calls made.
\<close>

fun primary_loop ::
  "world \<Rightarrow> settings \<Rightarrow> nat \<Rightarrow> string list \<Rightarrow> exn option \<times> outcome list \<times> event list" where
  "primary_loop w cfg i [] = (None, [], [])"
| "primary_loop w cfg i (archive # rest) =
     (case fst (process_primary w cfg archive) of
        Inl e \<Rightarrow> (Some e, [], snd (process_primary w cfg archive))
      | Inr out \<Rightarrow>
          (case progress_bar w i of
             Some e \<Rightarrow> (Some e, [out], snd (process_primary w cfg archive) @ [Bar])
           | None \<Rightarrow>
               (fst (primary_loop w cfg (Suc i) rest),
                out # fst (snd (primary_loop w cfg (Suc i) rest)),
                snd (process_primary w cfg archive) @ Bar
                  # snd (snd (primary_loop w cfg (Suc i) rest)))))"

text \<open>
  The relocation of the second loop. The move and the message after it are in a \<open>try\<close>
  block of their own; its handler prints, then copies, removes the source and prints in
  a third \<open>try\<close> block, whose handler prints and goes to the next archive. The result
  is \<open>Inr True\<close> when the file is in place, \<open>Inr False\<close> at the \<open>continue\<close>, and
  \<open>Inl\<close> of the exception of a handler's own print, which reaches the handler of the
  whole block.
\<close>

definition copy_handler :: "world \<Rightarrow> path \<Rightarrow> exn \<Rightarrow> (exn + bool) \<times> event list" where
  "copy_handler w innermost_file copy_error =
     (case print_call w (Msg_copy_failed innermost_file copy_error) of
        Some e \<Rightarrow> (Inl e, [])
      | None \<Rightarrow> (Inr False, []))"

definition move_handler ::
  "world \<Rightarrow> string \<Rightarrow> path \<Rightarrow> path \<Rightarrow> exn \<Rightarrow> (exn + bool) \<times> event list" where
  "move_handler w game_name innermost_file final_file_path e =
     (case print_call w (Msg_move_failed innermost_file e) of
        Some print_error \<Rightarrow> (Inl print_error, [])
      | None \<Rightarrow>
          emit [Copy2 innermost_file final_file_path]
            (case shutil_copy2 w innermost_file final_file_path of
               Some copy_error \<Rightarrow> copy_handler w innermost_file copy_error
             | None \<Rightarrow>
                 emit [Remove innermost_file]
                   (case os_remove w innermost_file of
                      Some copy_error \<Rightarrow> copy_handler w innermost_file copy_error
                    | None \<Rightarrow>
                        (case print_call w (Msg_copied game_name) of
                           Some copy_error \<Rightarrow> copy_handler w innermost_file copy_error
                         | None \<Rightarrow> (Inr True, [])))))"

definition relocate_fallback ::
  "world \<Rightarrow> string \<Rightarrow> path \<Rightarrow> path \<Rightarrow> (exn + bool) \<times> event list" where
  "relocate_fallback w game_name innermost_file final_file_path =
     emit [Move innermost_file final_file_path]
       (case shutil_move w innermost_file final_file_path of
          Some e \<Rightarrow> move_handler w game_name innermost_file final_file_path e
        | None \<Rightarrow>
            (case print_call w (Msg_moved game_name) of
               Some e \<Rightarrow> move_handler w game_name innermost_file final_file_path e
             | None \<Rightarrow> (Inr True, [])))"

text \<open>
  The cleanup of the second loop, in a \<open>try\<close> block of its own whose handler prints a
  warning, and the marker write, likewise. \<open>Some e\<close> is the exception of a handler's own
  print.
\<close>

definition cleanup_fallback :: "world \<Rightarrow> path \<Rightarrow> exn option \<times> event list" where
  "cleanup_fallback w game_dir =
     emit [Rmtree game_dir]
       (case shutil_rmtree w game_dir of
          Some e \<Rightarrow> (print_call w (Msg_cleanup_failed game_dir e), [])
        | None \<Rightarrow>
            (case print_call w (Msg_cleaned game_dir) of
               Some e \<Rightarrow> (print_call w (Msg_cleanup_failed game_dir e), [])
             | None \<Rightarrow> (None, [])))"

definition marker_fallback :: "world \<Rightarrow> path \<Rightarrow> string \<Rightarrow> exn option \<times> event list" where
  "marker_fallback w final_file_path game_name =
     emit [Write (final_file_path @ ''.xbox360'') game_name]
       (case open_write w (final_file_path @ ''.xbox360'') game_name of
          Some e \<Rightarrow> (print_call w (Msg_marker_failed e), [])
        | None \<Rightarrow>
            (case print_call w (Msg_marker_created game_name) of
               Some e \<Rightarrow> (print_call w (Msg_marker_failed e), [])
             | None \<Rightarrow> (None, [])))"

text \<open>
  The \<open>try\<close> block of the second loop; \<open>i\<close> is the index of the archive and \<open>n\<close> the
  number of archives, which the first message shows.
\<close>

definition try_block_fallback ::
  "world \<Rightarrow> settings \<Rightarrow> nat \<Rightarrow> nat \<Rightarrow> string \<Rightarrow> (exn + outcome) \<times> event list" where
  "try_block_fallback w cfg i n archive =
     (let archive_path = join (xbla_dir cfg) archive;
          game_name = game_name_of cfg archive;
          game_dir = game_dir_of cfg archive;
          final_file_path = final_file_path_of cfg archive
      in case print_call w (Msg_processing_count archive (i + 1) n) of
           Some e \<Rightarrow> (Inl e, [])
         | None \<Rightarrow>
      emit [Makedirs game_dir]
        (case os_makedirs w game_dir of
           Some e \<Rightarrow> (Inl e, [])
         | None \<Rightarrow>
      emit (snd (extract_archive w archive_path game_dir))
        (case fst (extract_archive w archive_path game_dir) of
           Inl e \<Rightarrow> (Inl e, [])
         | Inr extracted \<Rightarrow>
             if \<not> extracted then report w (Msg_extract_failed archive) Extract_failed
             else
      emit [Walk game_dir]
        (case find_innermost_file game_dir (os_walk_tree w game_dir) of
           None \<Rightarrow> report w (Msg_no_innermost game_dir) No_innermost_file
         | Some innermost_file \<Rightarrow>
             if innermost_file = [] then report w (Msg_no_innermost game_dir) No_innermost_file
             else
      (case print_call w (Msg_moving innermost_file final_file_path) of
         Some e \<Rightarrow> (Inl e, [])
       | None \<Rightarrow>
      emit (snd (relocate_fallback w game_name innermost_file final_file_path))
        (case fst (relocate_fallback w game_name innermost_file final_file_path) of
           Inl e \<Rightarrow> (Inl e, [])
         | Inr relocated \<Rightarrow>
             if \<not> relocated then (Inr Copy_failed, [])
             else
      emit (snd (cleanup_fallback w game_dir))
        (case fst (cleanup_fallback w game_dir) of
           Some e \<Rightarrow> (Inl e, [])
         | None \<Rightarrow>
      emit (snd (marker_fallback w final_file_path game_name))
        (case fst (marker_fallback w final_file_path game_name) of
           Some e \<Rightarrow> (Inl e, [])
         | None \<Rightarrow> (Inr Completed, [])))))))))"

definition process_fallback ::
  "world \<Rightarrow> settings \<Rightarrow> nat \<Rightarrow> nat \<Rightarrow> string \<Rightarrow> (exn + outcome) \<times> event list" where
  "process_fallback w cfg i n archive =
     (case fst (try_block_fallback w cfg i n archive) of
        Inr out \<Rightarrow> (Inr out, snd (try_block_fallback w cfg i n archive))
      | Inl e \<Rightarrow>
          (case print_call w (Msg_error_processing archive e) of
             None \<Rightarrow> (Inr (Error_processing e), snd (try_block_fallback w cfg i n archive))
           | Some print_error \<Rightarrow> (Inl print_error, snd (try_block_fallback w cfg i n archive))))"

text \<open>The second loop, which has no progress bar.\<close>

fun fallback_loop ::
  "world \<Rightarrow> settings \<Rightarrow> nat \<Rightarrow> nat \<Rightarrow> string list \<Rightarrow> exn option \<times> outcome list \<times> event list" where
  "fallback_loop w cfg i n [] = (None, [], [])"
| "fallback_loop w cfg i n (archive # rest) =
     (case fst (process_fallback w cfg i n archive) of
        Inl e \<Rightarrow> (Some e, [], snd (process_fallback w cfg i n archive))
      | Inr out \<Rightarrow>
          (fst (fallback_loop w cfg (Suc i) n rest),
           out # fst (snd (fallback_loop w cfg (Suc i) n rest)),
           snd (process_fallback w cfg i n archive) @ snd (snd (fallback_loop w cfg (Suc i) n rest))))"

text \<open>The \<open>with\<close> block of the progress bar around the first loop.\<close>

definition with_alive_bar ::
  "world \<Rightarrow> settings \<Rightarrow> string list \<Rightarrow> exn option \<times> outcome list \<times> event list" where
  "with_alive_bar w cfg archives =
     (case alive_bar_enter w of
        Some e \<Rightarrow> (Some e, [], [])
      | None \<Rightarrow> primary_loop w cfg 0 archives)"

text \<open>
  The two loops as \<open>main\<close> runs them. When a \<open>UnicodeEncodeError\<close> leaves the first,
  the handler prints a message and the second loop starts, from the first archive again;
  any other exception, and any exception of the handler or of the second loop, leaves
  \<open>main\<close>.
\<close>

definition run_batch ::
  "world \<Rightarrow> settings \<Rightarrow> string list \<Rightarrow> exn option \<times> outcome list \<times> event list" where
  "run_batch w cfg archives =
     (case fst (with_alive_bar w cfg archives) of
        None \<Rightarrow> with_alive_bar w cfg archives
      | Some e \<Rightarrow>
          if e \<noteq> UnicodeEncodeError then with_alive_bar w cfg archives
          else
            (case print_call w Msg_progress_disabled of
               Some print_error \<Rightarrow>
                 (Some print_error,
                  fst (snd (with_alive_bar w cfg archives)),
                  snd (snd (with_alive_bar w cfg archives)))
             | None \<Rightarrow>
                 (fst (fallback_loop w cfg 0 (length archives) archives),
                  fst (snd (with_alive_bar w cfg archives))
                    @ fst (snd (fallback_loop w cfg 0 (length archives) archives)),
                  snd (snd (with_alive_bar w cfg archives))
                    @ snd (snd (fallback_loop w cfg 0 (length archives) archives)))))"

section \<open>Notions used to state the properties\<close>

text \<open>The paths of the files in the order in which the two loops of the locator meet them.\<close>

definition walked_files :: "path \<Rightarrow> node list \<Rightarrow> path list" where
  "walked_files directory es =
     concat (map (\<lambda>(root, dirs, files). map (join root) files) (walk directory es))"

text \<open>A tree has a file when some directory of it, at any level, lists one.\<close>

fun has_file :: "node list \<Rightarrow> bool" where
  "has_file [] = False"
| "has_file (File n # es) = True"
| "has_file (Dir n sub # es) = (has_file sub \<or> has_file es)"

text \<open>The paths of the files of a tree, read off the tree itself.\<close>

fun file_paths :: "path \<Rightarrow> node list \<Rightarrow> path list" where
  "file_paths root [] = []"
| "file_paths root (File n # es) = join root n # file_paths root es"
| "file_paths root (Dir n sub # es) = file_paths (join root n) sub @ file_paths root es"

text \<open>The names a directory listing can give: not empty, and without a separator.\<close>

fun wf_names :: "node list \<Rightarrow> bool" where
  "wf_names [] = True"
| "wf_names (File n # es) = (n \<noteq> [] \<and> sep \<notin> set n \<and> wf_names es)"
| "wf_names (Dir n sub # es) = (n \<noteq> [] \<and> sep \<notin> set n \<and> wf_names sub \<and> wf_names es)"

text \<open>One round of the inner loop, as a function of the state and the path.\<close>

definition deeper :: "path \<Rightarrow> path option \<times> int \<Rightarrow> path \<Rightarrow> path option \<times> int" where
  "deeper directory st file_path =
     (if depth_of directory file_path > snd st
      then (Some file_path, depth_of directory file_path) else st)"

text \<open>
  What collapsing the runs of a character means: of two neighbours that both are the
  character \<open>c\<close> the first one goes, so a run of any length comes out as one \<open>c\<close>, and
  every other character stays where it is.
\<close>

fun squeeze :: "char \<Rightarrow> string \<Rightarrow> string" where
  "squeeze c [] = []"
| "squeeze c [x] = [x]"
| "squeeze c (x # y # zs) = (if x = c \<and> y = c then squeeze c (y # zs) else x # squeeze c (y # zs))"

text \<open>An extracted tree with files at four levels, two of them at the deepest one.\<close>

definition sample_tree :: "node list" where
  "sample_tree =
     [File ''readme'',
      Dir ''a'' [File ''x'', Dir ''b'' [File ''payload'', File ''other'']],
      Dir ''c'' [Dir ''d'' [File ''late'']]]"

text \<open>The four names that the resolver can put in its list.\<close>

definition known_extractor :: "extractor \<Rightarrow> bool" where
  "known_extractor x = (fst x \<in> {''unrar'', ''7z'', ''unzip'', ''patoolib''})"

text \<open>The call that the loop of \<open>extract_archive\<close> makes for an extractor.\<close>

definition invocation :: "path \<Rightarrow> path \<Rightarrow> extractor \<Rightarrow> event" where
  "invocation archive_path extract_to x =
     (if fst x = ''patoolib'' then Patool archive_path extract_to
      else Run (the (assign_cmd (fst x) (snd x) archive_path extract_to None)))"

text \<open>
  An extractor succeeds when its process ends with return code zero or, for the library,
  when the call returns; a non-zero return code, a timeout and any other exception are
  failures.
\<close>

definition succeeds :: "world \<Rightarrow> path \<Rightarrow> path \<Rightarrow> extractor \<Rightarrow> bool" where
  "succeeds w archive_path extract_to x =
     (if fst x = ''patoolib'' then patoolib_extract w archive_path extract_to = None
      else run_cmd w (the (assign_cmd (fst x) (snd x) archive_path extract_to None)) = Inr 0)"

text \<open>The extractors up to the first one that succeeds, that one included.\<close>

definition tried :: "world \<Rightarrow> path \<Rightarrow> path \<Rightarrow> extractor list \<Rightarrow> extractor list" where
  "tried w archive_path extract_to xs =
     takeWhile (\<lambda>x. \<not> succeeds w archive_path extract_to x) xs
       @ take 1 (dropWhile (\<lambda>x. \<not> succeeds w archive_path extract_to x) xs)"

text \<open>
  A host without \<open>unzip\<close>, where \<open>unrar\<close> ends with return code 3 and every other
  call goes through.
\<close>

definition sample_world :: world where
  "sample_world =
     \<lparr> win32 = False,
       run_probe = (\<lambda>t. if t = ''unzip'' then Some FileNotFoundError else None),
       patoolib_importable = True,
       subprocess_run = (\<lambda>c. if hd c = ''unrar'' then Inr 3 else Inr 0),
       patoolib_extract = (\<lambda>a d. None),
       os_makedirs = (\<lambda>p. None),
       os_walk_tree = (\<lambda>p. sample_tree),
       shutil_move = (\<lambda>a b. None),
       shutil_copy2 = (\<lambda>a b. None),
       os_remove = (\<lambda>p. None),
       shutil_rmtree = (\<lambda>p. None),
       open_write = (\<lambda>p s. None),
       print_call = (\<lambda>m. None),
       alive_bar_enter = None,
       progress_bar = (\<lambda>i. None) \<rparr>"

text \<open>
  A host whose input and output directories have a character in their names that the
  standard output cannot encode, while the names of the archives are plain. A message
  raises \<open>UnicodeEncodeError\<close> there when its text holds a path under one of the
  directories, or the text of an exception that quotes such a path or a command line.
\<close>

definition carries_path :: "exn \<Rightarrow> bool" where
  "carries_path e = (e \<in> {TimeoutExpired, FileNotFoundError, PermissionError, OSError})"

fun shows_path :: "message \<Rightarrow> bool" where
  "shows_path (Msg_error_with n e) = carries_path e"
| "shows_path (Msg_error_processing a e) = carries_path e"
| "shows_path (Msg_marker_failed e) = carries_path e"
| "shows_path (Msg_no_innermost d) = True"
| "shows_path (Msg_moving p f) = True"
| "shows_path (Msg_move_failed p e) = True"
| "shows_path (Msg_copy_failed p e) = True"
| "shows_path (Msg_cleaned d) = True"
| "shows_path (Msg_cleanup_failed d e) = True"
| "shows_path m = False"

text \<open>
  On that host \<open>unrar\<close> hangs on one archive, \<open>a.zip\<close>, and the scratch directory of
  another, \<open>locked.zip\<close>, cannot be created; every other call goes through.
\<close>

definition narrow_stdout_world :: world where
  "narrow_stdout_world =
     sample_world
       \<lparr> subprocess_run :=
           (\<lambda>c. if c = [''unrar'', ''x'', ''-o-'', ''/in/a.zip'', ''/out/a_temp'']
                then Inl TimeoutExpired else Inr 0),
         os_makedirs := (\<lambda>p. if p = ''/out/locked_temp'' then Some PermissionError else None),
         print_call := (\<lambda>m. if shows_path m then Some UnicodeEncodeError else None) \<rparr>"

text \<open>The default formatting choice, with an input and an output directory.\<close>

definition sample_settings :: settings where
  "sample_settings =
     \<lparr> replace_spaces = True, space_replacement = ''_'', xbla_dir = ''/in'', xbla_unpacked_dir = ''/out'' \<rparr>"


text \<open>A host where the scratch directory is gone by the time the cleanup runs.\<close>

definition missing_scratch_world :: world where
  "missing_scratch_world = sample_world \<lparr> shutil_rmtree := (\<lambda>p. Some FileNotFoundError) \<rparr>"

text \<open>A host with no extraction tool and without the library.\<close>

definition bare_world :: world where
  "bare_world =
     sample_world \<lparr> run_probe := (\<lambda>t. Some FileNotFoundError), patoolib_importable := False \<rparr>"

section \<open>Properties of the locator\<close>

lemma scan_files_foldl:
  "scan_files d root files st = foldl (deeper d) st (map (join root) files)"
  by (induction files arbitrary: st) (auto simp: deeper_def Let_def split: prod.splits)

lemma scan_walk_foldl:
  "scan_walk d trips st =
     foldl (deeper d) st (concat (map (\<lambda>(root, dirs, files). map (join root) files) trips))"
  by (induction d trips st rule: scan_walk.induct) (simp_all add: scan_files_foldl)

lemma find_innermost_file_foldl:
  "find_innermost_file d es = fst (foldl (deeper d) (None, - 1) (walked_files d es))"
  by (simp add: find_innermost_file_def walked_files_def scan_walk_foldl)

lemma foldl_deeper:
  "(foldl (deeper d) (b, m) ps = (b, m) \<and> (\<forall>q\<in>set ps. depth_of d q \<le> m))
   \<or> (\<exists>p pre post. foldl (deeper d) (b, m) ps = (Some p, depth_of d p) \<and> ps = pre @ p # post
        \<and> m < depth_of d p
        \<and> (\<forall>q\<in>set pre. depth_of d q < depth_of d p)
        \<and> (\<forall>q\<in>set post. depth_of d q \<le> depth_of d p))"
proof (induction ps arbitrary: b m)
  case Nil
  then show ?case by simp
next
  case (Cons x xs)
  show ?case
  proof (cases "depth_of d x > m")
    case True
    then have st: "foldl (deeper d) (b, m) (x # xs) = foldl (deeper d) (Some x, depth_of d x) xs"
      by (simp add: deeper_def)
    from Cons.IH [of "Some x" "depth_of d x"] show ?thesis
    proof (elim disjE exE conjE)
      assume "foldl (deeper d) (Some x, depth_of d x) xs = (Some x, depth_of d x)"
        and "\<forall>q\<in>set xs. depth_of d q \<le> depth_of d x"
      with True st have "foldl (deeper d) (b, m) (x # xs) = (Some x, depth_of d x) \<and> x # xs = [] @ x # xs
        \<and> m < depth_of d x \<and> (\<forall>q\<in>set []. depth_of d q < depth_of d x)
        \<and> (\<forall>q\<in>set xs. depth_of d q \<le> depth_of d x)"
        by simp
      then show ?thesis by blast
    next
      fix p pre post
      assume "foldl (deeper d) (Some x, depth_of d x) xs = (Some p, depth_of d p)"
        and "xs = pre @ p # post" and "depth_of d x < depth_of d p"
        and "\<forall>q\<in>set pre. depth_of d q < depth_of d p"
        and "\<forall>q\<in>set post. depth_of d q \<le> depth_of d p"
      with True st have "foldl (deeper d) (b, m) (x # xs) = (Some p, depth_of d p)
        \<and> x # xs = (x # pre) @ p # post
        \<and> m < depth_of d p \<and> (\<forall>q\<in>set (x # pre). depth_of d q < depth_of d p)
        \<and> (\<forall>q\<in>set post. depth_of d q \<le> depth_of d p)"
        by simp
      then show ?thesis by blast
    qed
  next
    case False
    then have st: "foldl (deeper d) (b, m) (x # xs) = foldl (deeper d) (b, m) xs"
      by (simp add: deeper_def)
    from Cons.IH [of b m] show ?thesis
    proof (elim disjE exE conjE)
      assume "foldl (deeper d) (b, m) xs = (b, m)" and "\<forall>q\<in>set xs. depth_of d q \<le> m"
      with False st show ?thesis by simp
    next
      fix p pre post
      assume "foldl (deeper d) (b, m) xs = (Some p, depth_of d p)"
        and "xs = pre @ p # post" and "m < depth_of d p"
        and "\<forall>q\<in>set pre. depth_of d q < depth_of d p"
        and "\<forall>q\<in>set post. depth_of d q \<le> depth_of d p"
      with False st have "foldl (deeper d) (b, m) (x # xs) = (Some p, depth_of d p)
        \<and> x # xs = (x # pre) @ p # post
        \<and> m < depth_of d p \<and> (\<forall>q\<in>set (x # pre). depth_of d q < depth_of d p)
        \<and> (\<forall>q\<in>set post. depth_of d q \<le> depth_of d p)"
        by simp
      then show ?thesis by blast
    qed
  qed
qed

lemma depth_of_nonneg: "0 \<le> depth_of d p"
  by (simp add: depth_of_def)

lemma walked_files_walk:
  "walked_files d es = map (join d) (file_names es) @ concat (map (\<lambda>(root, dirs, files). map (join root) files) (walk_subdirs d es))"
  by (simp add: walked_files_def)

lemma has_file_walk:
  "has_file es \<longleftrightarrow> concat (map (\<lambda>(root, dirs, files). map (join root) files) (walk d es)) \<noteq> []"
  "has_file es \<longleftrightarrow> file_names es \<noteq> [] \<or> concat (map (\<lambda>(root, dirs, files). map (join root) files) (walk_subdirs d es)) \<noteq> []"
  by (induction d es and d es rule: walk_walk_subdirs.induct) auto

lemma has_file_walked_files: "has_file es \<longleftrightarrow> walked_files d es \<noteq> []"
  using has_file_walk(1) [of es d] by (simp add: walked_files_def)

text \<open>
  C3. The locator returns nothing exactly when the tree has no file at all. Otherwise it
  returns a file that the walk meets, whose depth (the number of separators after the
  directory's path) no file of the tree exceeds, and every file met before it is strictly
  less deep: among the deepest files it is the first in the order of the walk.
\<close>

theorem find_innermost_file_deepest_first:
  "(find_innermost_file d es = None \<longleftrightarrow> \<not> has_file es)
   \<and> (\<forall>p. find_innermost_file d es = Some p \<longrightarrow>
         (\<exists>pre post. walked_files d es = pre @ p # post
            \<and> (\<forall>q\<in>set pre. depth_of d q < depth_of d p)
            \<and> (\<forall>q\<in>set post. depth_of d q \<le> depth_of d p)))"
proof -
  let ?ps = "walked_files d es"
  from foldl_deeper [of d None "- 1" ?ps] show ?thesis
  proof (elim disjE exE conjE)
    assume same: "foldl (deeper d) (None, - 1) ?ps = (None, - 1)"
      and low: "\<forall>q\<in>set ?ps. depth_of d q \<le> - 1"
    have "?ps = []"
    proof (cases ?ps)
      case Nil
      then show ?thesis .
    next
      case (Cons q qs)
      with low have "depth_of d q \<le> - 1" by simp
      with depth_of_nonneg [of d q] show ?thesis by simp
    qed
    with same show ?thesis
      by (simp add: find_innermost_file_foldl has_file_walked_files [of es d])
  next
    fix p pre post
    assume "foldl (deeper d) (None, - 1) ?ps = (Some p, depth_of d p)"
      and "?ps = pre @ p # post"
      and "\<forall>q\<in>set pre. depth_of d q < depth_of d p"
      and "\<forall>q\<in>set post. depth_of d q \<le> depth_of d p"
    then show ?thesis
      by (auto simp: find_innermost_file_foldl has_file_walked_files [of es d])
  qed
qed

lemma sample_find: "find_innermost_file ''/out/g_temp'' sample_tree = Some ''/out/g_temp/a/b/payload''"
  by (simp add: find_innermost_file_def sample_tree_def join_def sep_def depth_of_def)

theorem find_innermost_file_deepest_first_witness:
  "find_innermost_file ''/out/g_temp'' sample_tree = Some ''/out/g_temp/a/b/payload''
   \<and> has_file sample_tree
   \<and> (\<exists>pre post. walked_files ''/out/g_temp'' sample_tree = pre @ ''/out/g_temp/a/b/payload'' # post
        \<and> (\<forall>q\<in>set pre. depth_of ''/out/g_temp'' q < depth_of ''/out/g_temp'' ''/out/g_temp/a/b/payload'')
        \<and> (\<forall>q\<in>set post. depth_of ''/out/g_temp'' q \<le> depth_of ''/out/g_temp'' ''/out/g_temp/a/b/payload''))"
  using find_innermost_file_deepest_first [of "''/out/g_temp''" sample_tree] sample_find
  by (simp add: sample_tree_def)

lemma join_plain:
  "n \<noteq> [] \<Longrightarrow> sep \<notin> set n \<Longrightarrow> join root n = root @ n \<or> join root n = root @ sep # n"
  by (cases n) (auto simp: join_def)

lemma join_extends:
  assumes "n \<noteq> []" and "sep \<notin> set n" and "prefix d root"
  shows "strict_prefix d (join root n)" and "prefix d (join root n)"
proof -
  from join_plain [OF assms(1,2), of root] obtain s where j: "join root n = root @ s" and "s \<noteq> []"
    using assms(1) by auto
  from assms(3) obtain t where "root = d @ t" by (auto simp: prefix_def)
  with j \<open>s \<noteq> []\<close> show "strict_prefix d (join root n)"
    by (auto simp: strict_prefix_def prefix_def)
  then show "prefix d (join root n)" by (simp add: strict_prefix_def)
qed

lemma file_paths_inside:
  "wf_names es \<Longrightarrow> prefix d root \<Longrightarrow> p \<in> set (file_paths root es) \<Longrightarrow> strict_prefix d p"
proof (induction root es rule: file_paths.induct)
  case (1 root)
  then show ?case by simp
next
  case (2 root n es)
  then show ?case by (auto simp: join_extends(1))
next
  case (3 root n sub es)
  then show ?case by (auto simp: join_extends(2))
qed

lemma walked_simps:
  "walked_files d es = map (join d) (file_names es) @ concat (map (\<lambda>(root, dirs, files). map (join root) files) (walk_subdirs d es))"
  by (simp add: walked_files_def)

lemma set_walk_file_paths:
  "set (walked_files d es) = set (file_paths d es)"
  "set (map (join d) (file_names es)) \<union> set (concat (map (\<lambda>(root, dirs, files). map (join root) files) (walk_subdirs d es))) = set (file_paths d es)"
proof (induction d es and d es rule: walk_walk_subdirs.induct)
  case (1 root es)
  then show ?case unfolding walked_simps by simp
next
  case (2 root)
  then show ?case by simp
next
  case (3 root n es)
  then show ?case by auto
next
  case (4 root n sub es)
  have "set (map (join root) (file_names (Dir n sub # es))) \<union> set (concat (map (\<lambda>(root, dirs, files). map (join root) files) (walk_subdirs root (Dir n sub # es))))
    = set (walked_files (join root n) sub) \<union> (set (map (join root) (file_names es)) \<union> set (concat (map (\<lambda>(root, dirs, files). map (join root) files) (walk_subdirs root es))))"
    unfolding walked_simps by auto
  also have "\<dots> = set (file_paths (join root n) sub) \<union> set (file_paths root es)"
    using 4 by simp
  finally show ?case by auto
qed

lemma find_innermost_file_walked:
  "find_innermost_file d es = Some p \<Longrightarrow> p \<in> set (walked_files d es)"
  using foldl_deeper [of d None "- 1" "walked_files d es"]
  by (auto simp: find_innermost_file_foldl)

lemma sample_wf: "wf_names sample_tree"
  by (simp add: sample_tree_def sep_def)

text \<open>
  C10. On a tree whose names are those a directory listing gives, a path that the
  locator returns extends the path of the directory it was given by at least one
  character, and it is the path of a file of that tree, one that the walk met.
\<close>

theorem find_innermost_file_inside:
  assumes "wf_names es" and "find_innermost_file d es = Some p"
  shows "strict_prefix d p \<and> p \<in> set (walked_files d es) \<and> p \<in> set (file_paths d es)"
proof -
  from assms(2) have walked: "p \<in> set (walked_files d es)"
    by (rule find_innermost_file_walked)
  then have "p \<in> set (file_paths d es)"
    by (simp add: set_walk_file_paths(1))
  with file_paths_inside [OF assms(1), of d d p] walked show ?thesis
    by simp
qed

theorem find_innermost_file_inside_witness:
  "wf_names sample_tree
   \<and> find_innermost_file ''/out/g_temp'' sample_tree = Some ''/out/g_temp/a/b/payload''
   \<and> strict_prefix ''/out/g_temp'' ''/out/g_temp/a/b/payload''
   \<and> ''/out/g_temp/a/b/payload'' \<in> set (walked_files ''/out/g_temp'' sample_tree)
   \<and> ''/out/g_temp/a/b/payload'' \<in> set (file_paths ''/out/g_temp'' sample_tree)"
  using find_innermost_file_inside [OF sample_wf sample_find] sample_wf sample_find
  by simp

section \<open>Properties of the sanitizer\<close>

lemma strip_sublist: "sublist (strip cs s) s"
proof -
  let ?P = "\<lambda>c. c \<in> set cs"
  let ?t = "dropWhile ?P s"
  have "sublist (dropWhile ?P (rev ?t)) (rev ?t)" by simp
  then have "sublist (rev (dropWhile ?P (rev ?t))) ?t"
    by (simp add: sublist_rev_left)
  moreover have "sublist ?t s" by simp
  ultimately show ?thesis
    unfolding strip_def by (rule sublist_order.order.trans)
qed

lemma strip_ends:
  assumes "strip cs s \<noteq> []"
  shows "hd (strip cs s) \<notin> set cs" and "last (strip cs s) \<notin> set cs"
proof -
  let ?P = "\<lambda>c. c \<in> set cs"
  let ?t = "dropWhile ?P s"
  let ?u = "dropWhile ?P (rev ?t)"
  from assms have u: "?u \<noteq> []" by (simp add: strip_def)
  have t: "?t \<noteq> []"
  proof
    assume "?t = []"
    then have "?u = []" by (simp only: rev.simps dropWhile.simps)
    with u show False by simp
  qed
  have "last (strip cs s) = hd ?u"
    using u by (simp add: strip_def last_rev)
  with hd_dropWhile [OF u] show "last (strip cs s) \<notin> set cs" by simp
  have "hd (strip cs s) = last ?u"
    using u by (simp add: strip_def hd_rev)
  also have "\<dots> = last (rev ?t)"
    using u by (metis append_Nil2 last_appendR takeWhile_dropWhile_id)
  also have "\<dots> = hd ?t"
    using t by (simp add: last_rev)
  finally show "hd (strip cs s) \<notin> set cs"
    using hd_dropWhile [OF t] by simp
qed

lemma sub_runs_delete: "sub_runs ok [] b s = filter ok s"
  by (induction s arbitrary: b) simp_all

lemma collapse_single:
  "collapse_runs [c] s =
     (if s = [] then []
      else if 2 \<le> length (takeWhile (\<lambda>x. x = c) s)
      then c # collapse_runs [c] (dropWhile (\<lambda>x. x = c) s)
      else hd s # collapse_runs [c] (tl s))"
  by (subst collapse_runs.simps) simp

lemma collapse_single_Nil: "collapse_runs [c] s = [] \<longleftrightarrow> s = []"
  by (subst collapse_single) simp

lemma collapse_single_hd: "s \<noteq> [] \<Longrightarrow> hd (collapse_runs [c] s) = hd s"
proof -
  assume s: "s \<noteq> []"
  show ?thesis
  proof (cases "2 \<le> length (takeWhile (\<lambda>x. x = c) s)")
    case True
    then have "takeWhile (\<lambda>x. x = c) s \<noteq> []" by auto
    then have "hd s = c" using s by (cases s) (auto split: if_splits)
    with True s show ?thesis by (subst collapse_single) simp
  next
    case False
    with s show ?thesis by (subst collapse_single) simp
  qed
qed

lemma collapse_single_subseq: "r = [c] \<Longrightarrow> subseq (collapse_runs r s) s"
proof (induction r s rule: collapse_runs.induct)
  case (1 r s)
  show ?case
  proof (cases "s = []")
    case True
    then show ?thesis by (subst collapse_runs.simps) simp
  next
    case False
    note ne = False
    show ?thesis
    proof (cases "2 \<le> length (takeWhile (\<lambda>x. x = c) s)")
      case True
      let ?tw = "takeWhile (\<lambda>x. x = c) s" and ?dw = "dropWhile (\<lambda>x. x = c) s"
      from True obtain a tw' where tw0: "?tw = a # tw'"
        by (cases ?tw) auto
      then have "a \<in> set ?tw" by simp
      then have "a = c" by (auto dest: set_takeWhileD)
      with tw0 have tw: "?tw = c # tw'" by simp
      have IH: "subseq (collapse_runs [c] ?dw) ?dw"
        using "1.IH"(1) [OF ne] True "1.prems" by simp
      have "s = c # tw' @ ?dw"
        using takeWhile_dropWhile_id [of "\<lambda>x. x = c" s] tw by simp
      then have "subseq (c # collapse_runs [c] ?dw) s"
        using IH by (metis subseq_Cons2 subseq_drop_many)
      with True ne "1.prems" show ?thesis
        by (subst collapse_runs.simps) simp
    next
      case False
      have IH: "subseq (collapse_runs [c] (tl s)) (tl s)"
        using "1.IH"(2) [OF ne] False "1.prems" by simp
      then have "subseq (hd s # collapse_runs [c] (tl s)) s"
        using ne by (cases s) simp_all
      with False ne "1.prems" show ?thesis
        by (subst collapse_runs.simps) simp
    qed
  qed
qed

lemma collapse_single_no_double: "r = [c] \<Longrightarrow> \<not> sublist [c, c] (collapse_runs r s)"
proof (induction r s rule: collapse_runs.induct)
  case (1 r s)
  show ?case
  proof (cases "s = []")
    case True
    then show ?thesis by (subst collapse_runs.simps) simp
  next
    case False
    note ne = False
    show ?thesis
    proof (cases "2 \<le> length (takeWhile (\<lambda>x. x = c) s)")
      case True
      let ?dw = "dropWhile (\<lambda>x. x = c) s"
      have IH: "\<not> sublist [c, c] (collapse_runs [c] ?dw)"
        using "1.IH"(1) [OF ne] True "1.prems" by simp
      have "\<not> prefix [c, c] (c # collapse_runs [c] ?dw)"
      proof
        assume "prefix [c, c] (c # collapse_runs [c] ?dw)"
        then have "prefix [c] (collapse_runs [c] ?dw)" by simp
        then have n: "collapse_runs [c] ?dw \<noteq> []" and h: "hd (collapse_runs [c] ?dw) = c"
          by (auto simp: prefix_def)
        from n have dw: "?dw \<noteq> []" by (simp add: collapse_single_Nil)
        with h have "hd ?dw = c" by (simp add: collapse_single_hd)
        with hd_dropWhile [OF dw] show False by simp
      qed
      with IH have "\<not> sublist [c, c] (c # collapse_runs [c] ?dw)"
        by (simp add: sublist_Cons_right)
      with True ne "1.prems" show ?thesis
        by (subst collapse_runs.simps) simp
    next
      case False
      have IH: "\<not> sublist [c, c] (collapse_runs [c] (tl s))"
        using "1.IH"(2) [OF ne] False "1.prems" by simp
      have "\<not> prefix [c, c] (hd s # collapse_runs [c] (tl s))"
      proof
        assume "prefix [c, c] (hd s # collapse_runs [c] (tl s))"
        then have "hd s = c \<and> prefix [c] (collapse_runs [c] (tl s))" by auto
        then have hs: "hd s = c" and n: "collapse_runs [c] (tl s) \<noteq> []" and h: "hd (collapse_runs [c] (tl s)) = c"
          by (auto simp: prefix_def)
        from n have t: "tl s \<noteq> []" by (simp add: collapse_single_Nil)
        with h have "hd (tl s) = c" by (simp add: collapse_single_hd)
        with hs t ne obtain zs where "s = c # c # zs"
          by (cases s; cases "tl s") auto
        then have "2 \<le> length (takeWhile (\<lambda>x. x = c) s)" by simp
        with False show False by simp
      qed
      with IH have "\<not> sublist [c, c] (hd s # collapse_runs [c] (tl s))"
        by (simp add: sublist_Cons_right)
      with False ne "1.prems" show ?thesis
        by (subst collapse_runs.simps) simp
    qed
  qed
qed

lemma squeeze_run: "squeeze c (c # t) = c # squeeze c (dropWhile (\<lambda>x. x = c) t)"
proof (induction t)
  case Nil
  then show ?case by simp
next
  case (Cons y t)
  then show ?case by (cases "y = c") simp_all
qed

lemma collapse_single_squeeze: "r = [c] \<Longrightarrow> collapse_runs r s = squeeze c s"
proof (induction r s rule: collapse_runs.induct)
  case (1 r s)
  show ?case
  proof (cases "s = []")
    case True
    then show ?thesis by (subst collapse_runs.simps) simp
  next
    case False
    note ne = False
    show ?thesis
    proof (cases "2 \<le> length (takeWhile (\<lambda>x. x = c) s)")
      case True
      let ?dw = "dropWhile (\<lambda>x. x = c) s"
      have IH: "collapse_runs [c] ?dw = squeeze c ?dw"
        using "1.IH"(1) [OF ne] True "1.prems" by simp
      from True obtain t where s: "s = c # t"
        by (cases s) (auto split: if_splits)
      then have "squeeze c s = c # squeeze c ?dw"
        by (simp add: squeeze_run)
      with True ne "1.prems" IH show ?thesis
        by (subst collapse_runs.simps) simp
    next
      case False
      have IH: "collapse_runs [c] (tl s) = squeeze c (tl s)"
        using "1.IH"(2) [OF ne] False "1.prems" by simp
      from ne obtain x t where s: "s = x # t" by (cases s) auto
      have "squeeze c (x # t) = x # squeeze c t"
      proof (cases t)
        case Nil
        then show ?thesis by simp
      next
        case (Cons y zs)
        with False s have "\<not> (x = c \<and> y = c)" by auto
        with Cons show ?thesis by auto
      qed
      with False ne "1.prems" IH s show ?thesis
        by (subst collapse_runs.simps) simp
    qed
  qed
qed

lemma sanitize_keep:
  "sanitize f KeepSpaces =
     strip ''.-_ '' (collapse_runs '' '' (filter allowed_keeping (remove_extension SUPPORTED_EXTENSIONS f)))"
  by (simp add: sanitize_def clean_filename_def re_sub_not_in_def sub_runs_delete)

text \<open>
  C7, as the code has it. Under the policy that keeps spaces the output is the name
  without its extension, with the characters outside the allowed class deleted, every run
  of spaces that is left collapsed to one space, and the characters \<open>.-_\<close> and the space
  trimmed from both ends. So the spaces of the output are spaces of the input, in the
  same order; but two spaces never stay in a row, and no space stays at either end.
\<close>

theorem keep_spaces_collapses_runs:
  "sanitize f KeepSpaces =
     strip ''.-_ ''
       (squeeze (CHR '' '') (filter allowed_keeping (remove_extension SUPPORTED_EXTENSIONS f)))
   \<and> subseq (sanitize f KeepSpaces) (remove_extension SUPPORTED_EXTENSIONS f)
   \<and> \<not> sublist ''  '' (sanitize f KeepSpaces)
   \<and> (sanitize f KeepSpaces \<noteq> [] \<longrightarrow>
        hd (sanitize f KeepSpaces) \<noteq> CHR '' '' \<and> last (sanitize f KeepSpaces) \<noteq> CHR '' '')"
proof (intro conjI impI)
  show "sanitize f KeepSpaces =
          strip ''.-_ ''
            (squeeze (CHR '' '') (filter allowed_keeping (remove_extension SUPPORTED_EXTENSIONS f)))"
    by (simp add: sanitize_keep collapse_single_squeeze)
next
  let ?g = "filter allowed_keeping (remove_extension SUPPORTED_EXTENSIONS f)"
  have "subseq (strip ''.-_ '' (collapse_runs '' '' ?g)) (collapse_runs '' '' ?g)"
    using strip_sublist by (rule sublist_imp_subseq)
  also have "subseq (collapse_runs '' '' ?g) ?g"
    by (rule collapse_single_subseq) simp
  also have "subseq ?g (remove_extension SUPPORTED_EXTENSIONS f)"
    by simp
  finally show "subseq (sanitize f KeepSpaces) (remove_extension SUPPORTED_EXTENSIONS f)"
    by (simp add: sanitize_keep)
next
  let ?g = "filter allowed_keeping (remove_extension SUPPORTED_EXTENSIONS f)"
  show "\<not> sublist ''  '' (sanitize f KeepSpaces)"
  proof
    assume "sublist ''  '' (sanitize f KeepSpaces)"
    then have "sublist ''  '' (strip ''.-_ '' (collapse_runs '' '' ?g))"
      by (simp add: sanitize_keep)
    from this strip_sublist have "sublist ''  '' (collapse_runs '' '' ?g)"
      by (rule sublist_order.order.trans)
    with collapse_single_no_double [of "'' ''" "CHR '' ''" ?g] show False by simp
  qed
next
  assume "sanitize f KeepSpaces \<noteq> []"
  then show "hd (sanitize f KeepSpaces) \<noteq> CHR '' ''"
    using strip_ends(1) [of "''.-_ ''" "collapse_runs '' '' (filter allowed_keeping (remove_extension SUPPORTED_EXTENSIONS f))"]
    by (auto simp: sanitize_keep)
next
  assume "sanitize f KeepSpaces \<noteq> []"
  then show "last (sanitize f KeepSpaces) \<noteq> CHR '' ''"
    using strip_ends(2) [of "''.-_ ''" "collapse_runs '' '' (filter allowed_keeping (remove_extension SUPPORTED_EXTENSIONS f))"]
    by (auto simp: sanitize_keep)
qed

lemmas sanitize_eval =
  sanitize_def clean_filename_def SUPPORTED_EXTENSIONS_def endswith_def lower_def lower_char_def
  code_def replace_space_def re_sub_not_in_def allowed_replacing_def allowed_keeping_def
  is_word_def is_bracket_def is_whitespace_def strip_def collapse_runs.simps

theorem keep_spaces_collapses_runs_witness:
  "sanitize '' My  Game!.rar'' KeepSpaces = ''My Game''
   \<and> strip ''.-_ ''
         (squeeze (CHR '' '')
            (filter allowed_keeping (remove_extension SUPPORTED_EXTENSIONS '' My  Game!.rar'')))
       = ''My Game''
   \<and> subseq ''My Game'' (remove_extension SUPPORTED_EXTENSIONS '' My  Game!.rar'')
   \<and> \<not> sublist ''  '' ''My Game''
   \<and> hd ''My Game'' \<noteq> CHR '' '' \<and> last ''My Game'' \<noteq> CHR '' ''"
proof -
  have v: "sanitize '' My  Game!.rar'' KeepSpaces = ''My Game''"
    by (simp add: sanitize_eval)
  note k = keep_spaces_collapses_runs [of "'' My  Game!.rar''", unfolded v]
  from k have e: "''My Game'' =
      strip ''.-_ ''
        (squeeze (CHR '' '')
           (filter allowed_keeping (remove_extension SUPPORTED_EXTENSIONS '' My  Game!.rar'')))"
    by (rule conjunct1)
  from k have "subseq ''My Game'' (remove_extension SUPPORTED_EXTENSIONS '' My  Game!.rar'')
      \<and> \<not> sublist ''  '' ''My Game''
      \<and> (''My Game'' \<noteq> [] \<longrightarrow> hd ''My Game'' \<noteq> CHR '' '' \<and> last ''My Game'' \<noteq> CHR '' '')"
    by (rule conjunct2)
  with v e [symmetric] show ?thesis
    by simp
qed

text \<open>
  C7, as the claim has it, fails: the two spaces between \<open>a\<close> and \<open>b\<close> are still there
  after the extension is cut off, and the output has one.
\<close>

theorem keep_spaces_run_counterexample:
  "remove_extension SUPPORTED_EXTENSIONS ''a  b.zip'' = ''a  b''
   \<and> sanitize ''a  b.zip'' KeepSpaces = ''a b''"
  by (simp add: sanitize_eval)

text \<open>
  C5 fails on the code under the policies that replace spaces: the class of the first
  \<open>re.sub\<close> lets every whitespace character through, and the \<open>replace\<close> after it takes
  out the space only, so a tab of the name is still in the output.
\<close>

theorem sanitize_keeps_tab:
  "sanitize (''a'' @ [CHR 0x09] @ ''b.zip'') ReplaceWithUnderscore = ''a'' @ [CHR 0x09] @ ''b''
   \<and> is_control (CHR 0x09)
   \<and> sanitize (''a'' @ [CHR 0x09] @ ''b.zip'') KeepSpaces = ''ab''"
  by (simp add: sanitize_eval is_control_def)

section \<open>Properties of the extractor and of the pipeline\<close>

lemmas world_eval =
  sample_world_def narrow_stdout_world_def missing_scratch_world_def bare_world_def
  sample_settings_def carries_path_def

lemmas extract_eval =
  extract_archive_def get_archive_extractor_def platform_tools_def is_tool_available_def
  assign_cmd_def run_cmd_def backend_handler_def emit_def

lemma sample_tree_find [simp]:
  "d \<noteq> [] \<Longrightarrow> last d \<noteq> CHR ''/'' \<Longrightarrow>
     find_innermost_file d sample_tree = Some (d @ ''/a/b/payload'')"
  by (simp add: find_innermost_file_def sample_tree_def join_def sep_def depth_of_def)

lemma names: "clean_filename ''a.zip'' True ''_'' = ''a''"
  "clean_filename ''b.zip'' True ''_'' = ''b''"
  "clean_filename ''g.zip'' True ''_'' = ''g''"
  "clean_filename ''locked.zip'' True ''_'' = ''locked''"
  "clean_filename ''_.zip'' True ''_'' = []"
  by (simp_all add: sanitize_eval)

lemma assign_cmd_known:
  "known_extractor (n, c) \<Longrightarrow> n \<noteq> ''patoolib'' \<Longrightarrow>
     assign_cmd n c a d cmd = Some (the (assign_cmd n c a d None))"
  by (auto simp: known_extractor_def assign_cmd_def)

lemma try_extractors_when_prints_succeed:
  assumes "\<forall>m. print_call w m = None"
  shows "\<forall>x\<in>set xs. known_extractor x \<Longrightarrow>
     try_extractors w a d cmd xs =
       (Inr (\<exists>x\<in>set xs. succeeds w a d x), map (invocation a d) (tried w a d xs))"
proof (induction xs arbitrary: cmd)
  case Nil
  then show ?case by (simp add: tried_def)
next
  case (Cons x xs)
  obtain n c where x: "x = (n, c)" by (cases x)
  from Cons.prems have known: "known_extractor (n, c)" and rest: "\<forall>y\<in>set xs. known_extractor y"
    by (simp_all add: x)
  note IH = Cons.IH [OF rest]
  show ?case
  proof (cases "n = ''patoolib''")
    case True
    then show ?thesis
      by (cases "patoolib_extract w a d")
        (simp_all add: x IH assms succeeds_def invocation_def tried_def emit_def backend_handler_def)
  next
    case False
    let ?c = "the (assign_cmd n c a d None)"
    have cmd: "assign_cmd n c a d cmd = Some ?c"
      by (rule assign_cmd_known [OF known False])
    show ?thesis
    proof (cases "run_cmd w ?c")
      case (Inl e)
      with False cmd show ?thesis
        by (simp add: x IH assms succeeds_def invocation_def tried_def emit_def backend_handler_def)
    next
      case (Inr rc)
      with False cmd show ?thesis
        by (simp add: x IH assms succeeds_def invocation_def tried_def emit_def backend_handler_def)
    qed
  qed
qed

lemma available_tools_subset:
  "available_tools w xs = Inr ys \<Longrightarrow> set ys \<subseteq> set xs"
  by (induction xs arbitrary: ys) (auto split: sum.splits if_splits)

lemma get_archive_extractor_known:
  assumes "get_archive_extractor w = Inr xs"
  shows "\<forall>x\<in>set xs. known_extractor x"
proof -
  from assms obtain ys where ys: "available_tools w (platform_tools w) = Inr ys"
    and xs: "xs = ys @ (if patoolib_importable w then [(''patoolib'', None)] else [])"
    by (auto simp: get_archive_extractor_def split: sum.splits)
  have "\<forall>x\<in>set (platform_tools w). known_extractor x"
    by (simp add: platform_tools_def known_extractor_def)
  with available_tools_subset [OF ys] have "\<forall>x\<in>set ys. known_extractor x"
    by blast
  with xs show ?thesis by (auto simp: known_extractor_def)
qed

text \<open>
  As long as every message can be printed, \<open>extract_archive\<close> on a list that is not
  empty calls the extractors in the order of the list, up to the first one that succeeds
  and no further, and returns whether one succeeded.
\<close>

lemma extract_archive_when_prints_succeed:
  assumes "\<forall>m. print_call w m = None"
    and "get_archive_extractor w = Inr extractors" and "extractors \<noteq> []"
  shows "extract_archive w archive_path extract_to =
           (Inr (\<exists>x\<in>set extractors. succeeds w archive_path extract_to x),
            map (invocation archive_path extract_to) (tried w archive_path extract_to extractors))"
proof -
  have "try_extractors w archive_path extract_to None extractors =
          (Inr (\<exists>x\<in>set extractors. succeeds w archive_path extract_to x),
           map (invocation archive_path extract_to) (tried w archive_path extract_to extractors))"
    by (rule try_extractors_when_prints_succeed [OF assms(1) get_archive_extractor_known [OF assms(2)]])
  with assms show ?thesis
    by (simp add: extract_archive_def)
qed

text \<open>
  C1 fails on the code. The handler of the loop body prints the exception of the backend
  without a guard of its own. On a host where the standard output cannot encode that text
  the print raises, and the exception leaves \<open>extract_archive\<close>: here \<open>unrar\<close> hangs,
  the report of it raises \<open>UnicodeEncodeError\<close>, and \<open>7z\<close>, which is next in the list
  and would succeed, is never called.
\<close>

theorem extract_archive_print_escapes:
  "get_archive_extractor narrow_stdout_world =
     Inr [(''unrar'', Some ''x''), (''7z'', Some ''x''), (''patoolib'', None)]
   \<and> succeeds narrow_stdout_world ''/in/a.zip'' ''/out/a_temp'' (''7z'', Some ''x'')
   \<and> extract_archive narrow_stdout_world ''/in/a.zip'' ''/out/a_temp'' =
       (Inl UnicodeEncodeError,
        [Run [Some ''unrar'', Some ''x'', Some ''-o-'', Some ''/in/a.zip'', Some ''/out/a_temp'']])"
  by (simp add: extract_eval world_eval succeeds_def)

lemmas block_eval =
  try_block_primary_def try_block_fallback_def relocate_fallback_def move_handler_def
  copy_handler_def cleanup_fallback_def marker_fallback_def report_def Let_def
  game_name_of_def game_dir_of_def final_file_path_of_def join_def sep_def

lemma locked_primary:
  "try_block_primary narrow_stdout_world sample_settings ''locked.zip'' =
     (Inl PermissionError, [Makedirs ''/out/locked_temp''])"
  by (simp add: block_eval extract_eval world_eval names)

lemma locked_fallback:
  "try_block_fallback narrow_stdout_world sample_settings i n ''locked.zip'' =
     (Inl PermissionError, [Makedirs ''/out/locked_temp''])"
  by (simp add: block_eval extract_eval world_eval names)

lemma b_primary:
  "try_block_primary narrow_stdout_world sample_settings ''b.zip'' =
     (Inr Completed,
      [Makedirs ''/out/b_temp'',
       Run [Some ''unrar'', Some ''x'', Some ''-o-'', Some ''/in/b.zip'', Some ''/out/b_temp''],
       Walk ''/out/b_temp'',
       Move ''/out/b_temp/a/b/payload'' ''/out/b'',
       Rmtree ''/out/b_temp'',
       Write ''/out/b.xbox360'' ''b''])"
  by (simp add: block_eval extract_eval world_eval names)

lemma narrow_prints:
  "print_call narrow_stdout_world (Msg_error_processing a PermissionError) = Some UnicodeEncodeError"
  "print_call narrow_stdout_world Msg_progress_disabled = None"
  "alive_bar_enter narrow_stdout_world = None"
  "progress_bar narrow_stdout_world i = None"
  by (simp_all add: world_eval)

text \<open>
  C2 fails on the code. The handler of an item's \<open>try\<close> block prints the exception
  without a guard of its own, in both loops. Here the scratch directory of the first
  archive cannot be created and the text of that exception cannot be printed: the
  \<open>UnicodeEncodeError\<close> of the print leaves the first loop, the second loop starts and
  is left in the same way, and \<open>main\<close> ends with the exception. The second archive,
  which is processed to its end when it is alone in the batch, is never attempted.
\<close>

theorem batch_aborted_by_report:
  "run_batch narrow_stdout_world sample_settings [''locked.zip'', ''b.zip''] =
     (Some UnicodeEncodeError, [], [Makedirs ''/out/locked_temp'', Makedirs ''/out/locked_temp''])
   \<and> run_batch narrow_stdout_world sample_settings [''b.zip''] =
       (None, [Completed],
        [Makedirs ''/out/b_temp'',
         Run [Some ''unrar'', Some ''x'', Some ''-o-'', Some ''/in/b.zip'', Some ''/out/b_temp''],
         Walk ''/out/b_temp'',
         Move ''/out/b_temp/a/b/payload'' ''/out/b'',
         Rmtree ''/out/b_temp'',
         Write ''/out/b.xbox360'' ''b'',
         Bar])"
  by (simp add: run_batch_def with_alive_bar_def process_primary_def process_fallback_def
      locked_primary locked_fallback b_primary narrow_prints)





lemma emit_simps [simp]: "fst (emit es r) = fst r" "snd (emit es r) = es @ snd r"
  by (simp_all add: emit_def)

lemma extract_archive_no_tools:
  "get_archive_extractor w = Inr [] \<Longrightarrow> extract_archive w a d = (Inl RuntimeError, [])"
  by (simp add: extract_archive_def)

lemma process_primary_no_tools:
  assumes "get_archive_extractor w = Inr []"
    and "print_call w (Msg_processing a) = None"
    and "os_makedirs w (game_dir_of cfg a) = None"
    and "print_call w (Msg_error_processing a RuntimeError) = None"
  shows "process_primary w cfg a = (Inr (Error_processing RuntimeError), [Makedirs (game_dir_of cfg a)])"
  using assms
  by (simp add: process_primary_def try_block_primary_def Let_def extract_archive_no_tools)

lemma primary_loop_no_tools:
  assumes "get_archive_extractor w = Inr []"
  shows "\<forall>a\<in>set archives. print_call w (Msg_processing a) = None
            \<and> os_makedirs w (game_dir_of cfg a) = None
            \<and> print_call w (Msg_error_processing a RuntimeError) = None \<Longrightarrow>
         \<forall>j<length archives. progress_bar w (i + j) = None \<Longrightarrow>
         primary_loop w cfg i archives =
           (None, map (\<lambda>a. Error_processing RuntimeError) archives,
            concat (map (\<lambda>a. [Makedirs (game_dir_of cfg a), Bar]) archives))"
proof (induction archives arbitrary: i)
  case Nil
  then show ?case by simp
next
  case (Cons a archives)
  from Cons.prems(1) have p: "process_primary w cfg a =
      (Inr (Error_processing RuntimeError), [Makedirs (game_dir_of cfg a)])"
    by (simp add: process_primary_no_tools [OF assms])
  from Cons.prems(2) have bar: "progress_bar w i = None"
    by (metis add.right_neutral length_greater_0_conv list.distinct(1))
  have "\<forall>j<length archives. progress_bar w (Suc i + j) = None"
  proof (intro allI impI)
    fix j assume "j < length archives"
    then have "Suc j < length (a # archives)" by simp
    with Cons.prems(2) have "progress_bar w (i + Suc j) = None" by blast
    then show "progress_bar w (Suc i + j) = None" by simp
  qed
  with Cons.IH [of "Suc i"] Cons.prems(1) have
    "primary_loop w cfg (Suc i) archives =
       (None, map (\<lambda>a. Error_processing RuntimeError) archives,
        concat (map (\<lambda>a. [Makedirs (game_dir_of cfg a), Bar]) archives))"
    by simp
  with p bar show ?case by simp
qed

text \<open>
  C4, as the code has it. When the resolver's list is empty, \<open>extract_archive\<close> raises
  \<open>RuntimeError\<close> without calling any backend: an error, not a failure value. The run
  is not aborted on it. The handler of the item's \<open>try\<close> block catches the error and
  reports the item, and as long as the messages are printed, the scratch directories are
  created and the progress bar works, the loop goes through every archive of the batch,
  each one ending in the same error.
\<close>

theorem no_backend_fails_each_item:
  assumes "get_archive_extractor w = Inr []"
  shows "extract_archive w archive_path extract_to = (Inl RuntimeError, [])
     \<and> ((\<forall>a\<in>set archives. print_call w (Msg_processing a) = None
            \<and> os_makedirs w (game_dir_of cfg a) = None
            \<and> print_call w (Msg_error_processing a RuntimeError) = None)
         \<and> alive_bar_enter w = None
         \<and> (\<forall>j<length archives. progress_bar w j = None)
        \<longrightarrow> run_batch w cfg archives =
              (None, map (\<lambda>a. Error_processing RuntimeError) archives,
               concat (map (\<lambda>a. [Makedirs (game_dir_of cfg a), Bar]) archives)))"
proof (intro conjI impI)
  show "extract_archive w archive_path extract_to = (Inl RuntimeError, [])"
    using assms by (rule extract_archive_no_tools)
next
  assume h: "(\<forall>a\<in>set archives. print_call w (Msg_processing a) = None
            \<and> os_makedirs w (game_dir_of cfg a) = None
            \<and> print_call w (Msg_error_processing a RuntimeError) = None)
         \<and> alive_bar_enter w = None
         \<and> (\<forall>j<length archives. progress_bar w j = None)"
  then have "primary_loop w cfg 0 archives =
      (None, map (\<lambda>a. Error_processing RuntimeError) archives,
       concat (map (\<lambda>a. [Makedirs (game_dir_of cfg a), Bar]) archives))"
    using primary_loop_no_tools [OF assms, of archives cfg 0] by simp
  with h show "run_batch w cfg archives =
      (None, map (\<lambda>a. Error_processing RuntimeError) archives,
       concat (map (\<lambda>a. [Makedirs (game_dir_of cfg a), Bar]) archives))"
    by (simp add: run_batch_def with_alive_bar_def)
qed

lemma bare_facts:
  "get_archive_extractor bare_world = Inr []"
  "print_call bare_world m = None"
  "os_makedirs bare_world p = None"
  "alive_bar_enter bare_world = None"
  "progress_bar bare_world i = None"
  by (simp_all add: world_eval extract_eval)

theorem no_backend_fails_each_item_witness:
  "get_archive_extractor bare_world = Inr []
   \<and> extract_archive bare_world ''/in/a.zip'' ''/out/a_temp'' = (Inl RuntimeError, [])
   \<and> run_batch bare_world sample_settings [''a.zip'', ''b.zip'', ''g.zip''] =
       (None,
        [Error_processing RuntimeError, Error_processing RuntimeError, Error_processing RuntimeError],
        [Makedirs ''/out/a_temp'', Bar, Makedirs ''/out/b_temp'', Bar, Makedirs ''/out/g_temp'', Bar])"
  using no_backend_fails_each_item [OF bare_facts(1), of "''/in/a.zip''" "''/out/a_temp''"
      "[''a.zip'', ''b.zip'', ''g.zip'']" sample_settings]
  by (simp add: bare_facts game_dir_of_def game_name_of_def names join_def sep_def sample_settings_def)

text \<open>
  C4, as the claim has it, fails: on a host without any backend the run is not aborted at
  the first archive; the second one is attempted, and the batch runs to its end.
\<close>

theorem no_backend_batch_continues_counterexample:
  "get_archive_extractor bare_world = Inr []
   \<and> run_batch bare_world sample_settings [''a.zip'', ''b.zip''] =
       (None, [Error_processing RuntimeError, Error_processing RuntimeError],
        [Makedirs ''/out/a_temp'', Bar, Makedirs ''/out/b_temp'', Bar])"
  by (simp add: run_batch_def with_alive_bar_def process_primary_def try_block_primary_def Let_def
      extract_archive_no_tools bare_facts game_dir_of_def game_name_of_def names join_def sep_def
      sample_settings_def)

lemma try_extractors_events:
  "e \<in> set (snd (try_extractors w a d cmd xs)) \<Longrightarrow> (\<exists>c. e = Run c) \<or> e = Patool a d"
proof (induction xs arbitrary: cmd)
  case Nil
  then show ?case by simp
next
  case (Cons x xs)
  obtain n c where x: "x = (n, c)" by (cases x)
  from Cons.prems show ?case
    unfolding x
    by (auto simp: backend_handler_def split: if_splits option.splits sum.splits
        dest: Cons.IH)
qed

lemma extract_archive_events:
  "e \<in> set (snd (extract_archive w a d)) \<Longrightarrow> (\<exists>c. e = Run c) \<or> e = Patool a d"
  by (auto simp: extract_archive_def split: sum.splits if_splits dest: try_extractors_events)

lemma extract_archive_no_fs_events [simp]:
  "Write m s \<notin> set (snd (extract_archive w a d))"
  "Move p f \<notin> set (snd (extract_archive w a d))"
  "Rmtree g \<notin> set (snd (extract_archive w a d))"
  by (auto dest: extract_archive_events)

lemma process_primary_events [simp]:
  "snd (process_primary w cfg a) = snd (try_block_primary w cfg a)"
  by (simp add: process_primary_def split: sum.splits option.splits)

lemma process_fallback_events [simp]:
  "snd (process_fallback w cfg i n a) = snd (try_block_fallback w cfg i n a)"
  by (simp add: process_fallback_def split: sum.splits option.splits)

lemma report_events [simp]: "snd (report w m out) = []"
  by (simp add: report_def split: option.splits)

lemma cleanup_fallback_events [simp]: "snd (cleanup_fallback w g) = [Rmtree g]"
  by (simp add: cleanup_fallback_def split: option.splits)

lemma marker_fallback_events [simp]:
  "snd (marker_fallback w f s) = [Write (f @ ''.xbox360'') s]"
  by (simp add: marker_fallback_def split: option.splits)

lemma copy_handler_events [simp]: "snd (copy_handler w p e) = []"
  by (simp add: copy_handler_def split: option.splits)

lemma move_handler_events:
  "x \<in> set (snd (move_handler w s p f e)) \<Longrightarrow> x = Copy2 p f \<or> x = Remove p"
  by (auto simp: move_handler_def split: option.splits)

lemma relocate_fallback_events:
  "x \<in> set (snd (relocate_fallback w s p f)) \<Longrightarrow> x = Move p f \<or> x = Copy2 p f \<or> x = Remove p"
  by (auto simp: relocate_fallback_def split: option.splits dest: move_handler_events)

lemma relocate_fallback_no_marker [simp]:
  "Write m s \<notin> set (snd (relocate_fallback w n p f))"
  "Rmtree g \<notin> set (snd (relocate_fallback w n p f))"
  by (auto dest: relocate_fallback_events)

lemma primary_starts_extraction:
  assumes "print_call w (Msg_processing archive) = None"
    and "os_makedirs w (game_dir_of cfg archive) = None"
  shows "prefix (Makedirs (game_dir_of cfg archive)
                  # snd (extract_archive w (join (xbla_dir cfg) archive) (game_dir_of cfg archive)))
                (snd (process_primary w cfg archive))"
  using assms
  by (simp add: try_block_primary_def Let_def)

lemma fallback_starts_extraction:
  assumes "print_call w (Msg_processing_count archive (i + 1) n) = None"
    and "os_makedirs w (game_dir_of cfg archive) = None"
  shows "prefix (Makedirs (game_dir_of cfg archive)
                  # snd (extract_archive w (join (xbla_dir cfg) archive) (game_dir_of cfg archive)))
                (snd (process_fallback w cfg i n archive))"
  using assms
  by (simp add: try_block_fallback_def Let_def)





text \<open>
  C6, as the code has it. Neither loop looks at the sanitized name before it goes on. For
  every archive, whatever its name comes out as, once the first message is printed and
  the scratch directory is created the calls of \<open>extract_archive\<close> on the archive and
  on that directory follow. When the name is empty the scratch directory is \<open>_temp\<close>
  under the output directory.
\<close>

theorem extraction_without_name_check:
  assumes "os_makedirs w (game_dir_of cfg archive) = None"
  shows "(print_call w (Msg_processing archive) = None \<longrightarrow>
            prefix (Makedirs (game_dir_of cfg archive)
                      # snd (extract_archive w (join (xbla_dir cfg) archive) (game_dir_of cfg archive)))
                   (snd (process_primary w cfg archive)))
       \<and> (print_call w (Msg_processing_count archive (i + 1) n) = None \<longrightarrow>
            prefix (Makedirs (game_dir_of cfg archive)
                      # snd (extract_archive w (join (xbla_dir cfg) archive) (game_dir_of cfg archive)))
                   (snd (process_fallback w cfg i n archive)))
       \<and> (game_name_of cfg archive = [] \<longrightarrow>
            game_dir_of cfg archive = join (xbla_unpacked_dir cfg) ''_temp'')"
proof (intro conjI impI)
  assume "print_call w (Msg_processing archive) = None"
  from this assms show "prefix (Makedirs (game_dir_of cfg archive)
                      # snd (extract_archive w (join (xbla_dir cfg) archive) (game_dir_of cfg archive)))
                   (snd (process_primary w cfg archive))"
    by (rule primary_starts_extraction)
next
  assume "print_call w (Msg_processing_count archive (i + 1) n) = None"
  from this assms show "prefix (Makedirs (game_dir_of cfg archive)
                      # snd (extract_archive w (join (xbla_dir cfg) archive) (game_dir_of cfg archive)))
                   (snd (process_fallback w cfg i n archive))"
    by (rule fallback_starts_extraction)
next
  assume "game_name_of cfg archive = []"
  then show "game_dir_of cfg archive = join (xbla_unpacked_dir cfg) ''_temp''"
    by (simp add: game_dir_of_def)
qed

lemma sample_facts:
  "print_call sample_world m = None"
  "os_makedirs sample_world p = None"
  "shutil_move sample_world p f = None"
  by (simp_all add: world_eval)

lemma sample_dirs:
  "game_name_of sample_settings ''_.zip'' = []"
  "game_dir_of sample_settings ''_.zip'' = ''/out/_temp''"
  "game_name_of sample_settings ''g.zip'' = ''g''"
  "game_dir_of sample_settings ''g.zip'' = ''/out/g_temp''"
  "xbla_dir sample_settings = ''/in''"
  by (simp_all add: game_dir_of_def game_name_of_def names join_def sep_def sample_settings_def)

lemma sample_extract:
  "extract_archive sample_world (join ''/in'' a) d =
     (Inr True,
      [Run [Some ''unrar'', Some ''x'', Some ''-o-'', Some (join ''/in'' a), Some d],
       Run [Some ''7z'', Some ''x'', Some (''-o'' @ d), Some (join ''/in'' a)]])"
  by (simp add: extract_eval world_eval)

theorem extraction_without_name_check_witness:
  "os_makedirs sample_world (game_dir_of sample_settings ''_.zip'') = None
   \<and> print_call sample_world (Msg_processing ''_.zip'') = None
   \<and> print_call sample_world (Msg_processing_count ''_.zip'' 1 1) = None
   \<and> game_name_of sample_settings ''_.zip'' = []
   \<and> prefix
        [Makedirs ''/out/_temp'',
         Run [Some ''unrar'', Some ''x'', Some ''-o-'', Some ''/in/_.zip'', Some ''/out/_temp''],
         Run [Some ''7z'', Some ''x'', Some ''-o/out/_temp'', Some ''/in/_.zip'']]
        (snd (process_primary sample_world sample_settings ''_.zip''))
   \<and> prefix
        [Makedirs ''/out/_temp'',
         Run [Some ''unrar'', Some ''x'', Some ''-o-'', Some ''/in/_.zip'', Some ''/out/_temp''],
         Run [Some ''7z'', Some ''x'', Some ''-o/out/_temp'', Some ''/in/_.zip'']]
        (snd (process_fallback sample_world sample_settings 0 1 ''_.zip''))"
proof -
  have j: "join ''/in'' ''_.zip'' = ''/in/_.zip''"
    by (simp add: join_def sep_def)
  have m: "os_makedirs sample_world (game_dir_of sample_settings ''_.zip'') = None"
    by (rule sample_facts)
  note t = extraction_without_name_check [OF m, of 0 1]
  from t have a: "prefix (Makedirs (game_dir_of sample_settings ''_.zip'')
        # snd (extract_archive sample_world (join (xbla_dir sample_settings) ''_.zip'')
                 (game_dir_of sample_settings ''_.zip'')))
      (snd (process_primary sample_world sample_settings ''_.zip''))"
    by (simp add: sample_facts)
  from t have b: "prefix (Makedirs (game_dir_of sample_settings ''_.zip'')
        # snd (extract_archive sample_world (join (xbla_dir sample_settings) ''_.zip'')
                 (game_dir_of sample_settings ''_.zip'')))
      (snd (process_fallback sample_world sample_settings 0 1 ''_.zip''))"
    by (simp add: sample_facts)
  have ev: "snd (extract_archive sample_world (join (xbla_dir sample_settings) ''_.zip'')
                 (game_dir_of sample_settings ''_.zip'')) =
      [Run [Some ''unrar'', Some ''x'', Some ''-o-'', Some ''/in/_.zip'', Some ''/out/_temp''],
       Run [Some ''7z'', Some ''x'', Some ''-o/out/_temp'', Some ''/in/_.zip'']]"
    using sample_extract [of "''_.zip''" "''/out/_temp''"] by (simp add: sample_dirs j)
  from a b show ?thesis
    unfolding ev by (simp add: sample_facts sample_dirs)
qed

text \<open>
  C6, as the claim has it, fails: the archive \<open>_.zip\<close> is one of the archives of a
  listing that holds it, its sanitized name is empty, and the pipeline extracts it, moves
  the file found onto the output directory's own path and writes the marker
  \<open>.xbox360\<close>.
\<close>

theorem empty_name_proceeds_counterexample:
  "archive_files [''_.zip''] = [''_.zip'']
   \<and> game_name_of sample_settings ''_.zip'' = []
   \<and> process_primary sample_world sample_settings ''_.zip'' =
       (Inr Completed,
        [Makedirs ''/out/_temp'',
         Run [Some ''unrar'', Some ''x'', Some ''-o-'', Some ''/in/_.zip'', Some ''/out/_temp''],
         Run [Some ''7z'', Some ''x'', Some ''-o/out/_temp'', Some ''/in/_.zip''],
         Walk ''/out/_temp'',
         Move ''/out/_temp/a/b/payload'' ''/out/'',
         Rmtree ''/out/_temp'',
         Write ''/out/.xbox360'' []])"
proof -
  have "archive_files [''_.zip''] = [''_.zip'']"
    by (simp add: archive_files_def SUPPORTED_EXTENSIONS_def endswith_def lower_def lower_char_def code_def)
  moreover have "try_block_primary sample_world sample_settings ''_.zip'' =
       (Inr Completed,
        [Makedirs ''/out/_temp'',
         Run [Some ''unrar'', Some ''x'', Some ''-o-'', Some ''/in/_.zip'', Some ''/out/_temp''],
         Run [Some ''7z'', Some ''x'', Some ''-o/out/_temp'', Some ''/in/_.zip''],
         Walk ''/out/_temp'',
         Move ''/out/_temp/a/b/payload'' ''/out/'',
         Rmtree ''/out/_temp'',
         Write ''/out/.xbox360'' []])"
    by (simp add: block_eval extract_eval world_eval names)
  ultimately show ?thesis
    by (simp add: process_primary_def sample_dirs)
qed







text \<open>
  As long as every message can be printed, no exception leaves the handler of an item, and
  with a progress bar that works the first loop goes through every archive of the batch,
  whatever happens to each one.
\<close>

lemma process_primary_when_prints_succeed:
  "\<forall>m. print_call w m = None \<Longrightarrow> \<exists>out. fst (process_primary w cfg a) = Inr out"
  by (cases "fst (try_block_primary w cfg a)") (simp_all add: process_primary_def)

lemma primary_loop_when_prints_succeed:
  assumes "\<forall>m. print_call w m = None" and "\<forall>j. progress_bar w j = None"
  shows "primary_loop w cfg i archives =
           (None, map (\<lambda>a. projr (fst (process_primary w cfg a))) archives,
            concat (map (\<lambda>a. snd (process_primary w cfg a) @ [Bar]) archives))"
proof (induction archives arbitrary: i)
  case Nil
  then show ?case by simp
next
  case (Cons a archives)
  from process_primary_when_prints_succeed [OF assms(1), of cfg a]
  obtain out where out: "fst (process_primary w cfg a) = Inr out" by blast
  with Cons.IH [of "Suc i"] assms(2) show ?case
    by (simp del: process_primary_events)
qed

end
